theory Spec2Isabelle
  imports
    Main
    "HOL-Library.Sublist"
    "HOL-Library.AList"
    "HOL-Library.Char_ord"
    "HOL-Library.List_Lexorder"
begin

section \<open>The continuous video-summary agent (custom\_agent/continuous\_agent.py)\<close>

text \<open>
  The agent polls a directory for JSON files, asks a language-model server for one
  consolidated description, and keeps an accumulated \<open>OverallSummary\<close> in memory and in
  one persisted file. This theory embeds the data model and the operations of
  \<open>OllamaClient\<close> and \<open>ContinuousVideoAgent\<close> that decide which files are new, what the
  accumulated state becomes after a cycle, and what is written to disk.

  Python \<open>str\<close> values are modelled as \<open>string\<close>, \<open>int\<close> as \<open>int\<close>, a \<open>dict\<close> as an
  association list in insertion order, and the \<open>set\<close> of processed paths as a HOL set
  whose iteration order is supplied from outside.
\<close>

subsection \<open>Data model\<close>

text \<open>\<open>class VideoSummary(BaseModel)\<close>: every field is optional and defaults to \<open>None\<close>.\<close>

record VideoSummary =
  video_id :: "string option"
  title :: "string option"
  description :: "string option"
  ai_summary :: "string option"
  duration :: "string option"
  metadata :: "(string \<times> string) list option"

text \<open>\<open>class OverallSummary(BaseModel)\<close>.\<close>

record OverallSummary =
  total_videos :: int
  total_files :: int
  overall_ai_description :: string
  processed_files :: "string list"
  file_hashes :: "(string \<times> string) list"
  summary_metadata :: "(string \<times> string) list"

text \<open>
  The outcome of one \<open>requests.post\<close> to the generate endpoint followed by
  \<open>raise_for_status\<close> and \<open>response.json()\<close>: either a
  \<open>requests.exceptions.RequestException\<close> (connection error, timeout, HTTP error status,
  undecodable body), or the reply object, of which the code reads only the text field
  \<open>"response"\<close> (\<open>None\<close> when the reply has no such field).
\<close>

datatype http = RequestException | Response "string option"

text \<open>
  What \<open>open(self.output_file, 'w')\<close> followed by \<open>json.dump\<close> meets: the open raises,
  or a write raises after some chunks have gone out, or everything is written.
\<close>

datatype write_outcome = OpenFails | WriteFails nat | WriteOk

text \<open>
  Everything one cycle reads from outside the agent object. The functions stand for the
  libraries and services the source calls:
  \<^item> \<open>is_available\<close>: the result of \<open>OllamaClient.is_available\<close> (the health probe);
  \<^item> \<open>glob_json\<close>: \<open>list(self.monitor_dir.glob("*.json"))\<close>, each path as \<open>str(file_path)\<close>,
    in listing order;
  \<^item> \<open>read_bytes\<close>: \<open>open(path, 'rb').read()\<close>, \<open>None\<close> when it raises;
  \<^item> \<open>md5_hexdigest\<close>: \<open>hashlib.md5(bytes).hexdigest()\<close>;
  \<^item> \<open>load_json_file\<close>: the list of records \<open>ContinuousVideoAgent.load_json_file\<close>
    returns for a path on this snapshot of the directory (the empty list on a missing
    file, invalid JSON or any other exception);
  \<^item> \<open>set_iter\<close>: the order in which \<open>list(self.processed_files)\<close> enumerates a set;
  \<^item> \<open>classify_post\<close>, \<open>generate_post\<close>: the two requests to the language model, as
    functions of what their payloads are built from;
  \<^item> \<open>strftime\<close>: \<open>time.strftime("%Y-%m-%d %H:%M:%S")\<close>;
  \<^item> \<open>json_dump\<close>: the chunks \<open>json.dump(summary.model_dump(), file, indent=2,
    ensure_ascii=False)\<close> writes, in order;
  \<^item> \<open>disk_write\<close>: how the write of the persisted file ends.
\<close>

record env =
  is_available :: bool
  glob_json :: "string list"
  read_bytes :: "string \<Rightarrow> string option"
  md5_hexdigest :: "string \<Rightarrow> string"
  load_json_file :: "string \<Rightarrow> VideoSummary list"
  set_iter :: "string set \<Rightarrow> string list"
  classify_post :: "string list \<Rightarrow> string \<Rightarrow> http"
  generate_post :: "string list \<Rightarrow> string \<Rightarrow> string \<Rightarrow> nat \<Rightarrow> http"
  strftime :: string
  json_dump :: "OverallSummary \<Rightarrow> string list"
  disk_write :: write_outcome

text \<open>The fields of \<open>ContinuousVideoAgent\<close> that a cycle reads or writes.\<close>

record agent =
  self_monitor_dir :: string
  self_output_file :: string
  self_model :: string
  self_processed_files :: "string set"
  self_overall_summary :: "OverallSummary option"

subsection \<open>OllamaClient\<close>

text \<open>\<open>str.upper()\<close> on ASCII text: the letters a to z are raised, every other character
  is kept.\<close>

definition char_upper :: "char \<Rightarrow> char" where
  "char_upper c =
     (if CHR ''a'' \<le> c \<and> c \<le> CHR ''z'' then char_of (of_char c - (32::nat)) else c)"

definition upper :: "string \<Rightarrow> string" where
  "upper s = map char_upper s"

definition detail_levels :: "string list" where
  "detail_levels = [''BRIEF'', ''STANDARD'', ''DETAILED'', ''EXTENSIVE'']"

text \<open>
  The loop \<open>for level in detail_levels: if level in detail_response.upper(): return level\<close>
  and the \<open>return "STANDARD"\<close> after it. \<open>sublist\<close> is Python's \<open>in\<close> on two strings.
\<close>

fun scan_levels :: "string list \<Rightarrow> string \<Rightarrow> string" where
  "scan_levels [] up = ''STANDARD''"
| "scan_levels (level # rest) up = (if sublist level up then level else scan_levels rest up)"

definition analyze_content_complexity :: "env \<Rightarrow> string list \<Rightarrow> string \<Rightarrow> string" where
  "analyze_content_complexity e video_summaries model =
     (case classify_post e video_summaries model of
        RequestException \<Rightarrow> ''STANDARD''
      | Response r \<Rightarrow>
          (let detail_response = (case r of None \<Rightarrow> ''STANDARD'' | Some t \<Rightarrow> t)
           in scan_levels detail_levels (upper detail_response)))"

text \<open>\<open>max_tokens_map.get(detail_level, 1500)\<close>.\<close>

definition max_tokens_map :: "string \<Rightarrow> nat" where
  "max_tokens_map detail_level =
     (if detail_level = ''BRIEF'' then 800
      else if detail_level = ''STANDARD'' then 1500
      else if detail_level = ''DETAILED'' then 2500
      else if detail_level = ''EXTENSIVE'' then 4000
      else 1500)"

definition generate_summary :: "env \<Rightarrow> string list \<Rightarrow> string \<Rightarrow> string" where
  "generate_summary e video_summaries model =
     (let detail_level = analyze_content_complexity e video_summaries model
      in case generate_post e video_summaries model detail_level (max_tokens_map detail_level) of
           RequestException \<Rightarrow>
             ''Error: Unable to generate summary due to Ollama connection issues''
         | Response r \<Rightarrow>
             (case r of None \<Rightarrow> ''Unable to generate summary'' | Some t \<Rightarrow> t))"

subsection \<open>ContinuousVideoAgent: state store\<close>

text \<open>\<open>__init__\<close> before \<open>_load_existing_summary\<close>: no processed file, no summary.\<close>

definition init_agent :: "string \<Rightarrow> string \<Rightarrow> string \<Rightarrow> agent" where
  "init_agent monitor_dir output_file model =
     \<lparr>self_monitor_dir = monitor_dir, self_output_file = output_file, self_model = model,
      self_processed_files = {}, self_overall_summary = None\<rparr>"

text \<open>
  The persisted file is its text, \<open>None\<close> while it does not exist.
  \<open>open(self.output_file, 'w')\<close> creates the file or empties the one that is there, and
  each write of \<open>json.dump\<close> appends a chunk to it.
\<close>

definition open_w :: "string option \<Rightarrow> string option" where
  "open_w disk = Some []"

definition file_write :: "string \<Rightarrow> string option \<Rightarrow> string option" where
  "file_write chunk disk = Some ((case disk of None \<Rightarrow> [] | Some written \<Rightarrow> written) @ chunk)"

text \<open>
  \<open>_save_summary\<close>. Nothing happens without a summary. Otherwise the file is opened for
  writing and the chunks of the document are written to it one after the other; an
  exception is caught and logged, which leaves on disk whatever had been written by then:
  the file as it was when the open raises, the first \<open>k\<close> chunks when the write after
  them raises.
\<close>

definition save_summary :: "env \<Rightarrow> agent \<Rightarrow> string option \<Rightarrow> string option" where
  "save_summary e a disk =
     (case self_overall_summary a of
        None \<Rightarrow> disk
      | Some s \<Rightarrow>
          (case disk_write e of
             OpenFails \<Rightarrow> disk
           | WriteFails k \<Rightarrow>
               foldl (\<lambda>file chunk. file_write chunk file) (open_w disk) (take k (json_dump e s))
           | WriteOk \<Rightarrow>
               foldl (\<lambda>file chunk. file_write chunk file) (open_w disk) (json_dump e s)))"

text \<open>
  The contents of the persisted file at each point of a \<open>_save_summary\<close> that runs to its
  end, in order: before the call, after \<open>open(..., 'w')\<close>, and after each chunk written.
  A process that stops during the call leaves one of them behind.
\<close>

fun dump_states :: "string option \<Rightarrow> string list \<Rightarrow> string option list" where
  "dump_states file [] = [file]"
| "dump_states file (chunk # rest) = file # dump_states (file_write chunk file) rest"

definition save_summary_states :: "env \<Rightarrow> agent \<Rightarrow> string option \<Rightarrow> string option list" where
  "save_summary_states e a disk =
     (case self_overall_summary a of
        None \<Rightarrow> [disk]
      | Some s \<Rightarrow> disk # dump_states (open_w disk) (json_dump e s))"

text \<open>\<open>_get_file_hash\<close>: the MD5 hex digest of the content, the empty string on any
  exception.\<close>

definition get_file_hash :: "env \<Rightarrow> string \<Rightarrow> string" where
  "get_file_hash e file_path =
     (case read_bytes e file_path of None \<Rightarrow> [] | Some bytes \<Rightarrow> md5_hexdigest e bytes)"

text \<open>\<open>_is_file_processed\<close>. A model object is always true in a condition; a dict is true
  when it is not empty.\<close>

definition is_file_processed :: "env \<Rightarrow> agent \<Rightarrow> string \<Rightarrow> bool" where
  "is_file_processed e a file_path =
     (if file_path \<in> self_processed_files a then True
      else (case self_overall_summary a of
              None \<Rightarrow> False
            | Some s \<Rightarrow>
                (if file_hashes s \<noteq> []
                 then get_file_hash e file_path \<in> set (map snd (file_hashes s))
                 else False)))"

subsection \<open>ContinuousVideoAgent: one cycle\<close>

text \<open>The truth value of an \<open>Optional[str]\<close>: \<open>None\<close> and the empty string are false.\<close>

definition truthy :: "string option \<Rightarrow> string option" where
  "truthy v = (case v of None \<Rightarrow> None | Some s \<Rightarrow> (if s = [] then None else Some s))"

fun extract_ai_summaries :: "VideoSummary list \<Rightarrow> string list" where
  "extract_ai_summaries [] = []"
| "extract_ai_summaries (video # rest) =
     (case truthy (ai_summary video) of
        Some s \<Rightarrow> s # extract_ai_summaries rest
      | None \<Rightarrow>
          (case truthy (description video) of
             Some d \<Rightarrow> d # extract_ai_summaries rest
           | None \<Rightarrow>
               (case truthy (title video) of
                  Some t \<Rightarrow> (''Title: '' @ t) # extract_ai_summaries rest
                | None \<Rightarrow> extract_ai_summaries rest)))"

text \<open>\<open>Path.name\<close>: the last component of a path.\<close>

definition path_name :: "string \<Rightarrow> string" where
  "path_name p = rev (takeWhile (\<lambda>c. c \<noteq> CHR ''/'') (rev p))"

text \<open>\<open>str(n)\<close> for a natural number, as the f-string prints it.\<close>

fun str_nat :: "nat \<Rightarrow> string" where
  "str_nat n =
     (if n < 10 then [char_of (48 + n)]
      else str_nat (n div 10) @ [char_of (48 + n mod 10)])"

text \<open>The filter that selects \<open>new_files\<close> from the listing.\<close>

definition new_files_of :: "env \<Rightarrow> agent \<Rightarrow> string list" where
  "new_files_of e a =
     filter (\<lambda>file_path.
        path_name file_path \<noteq> path_name (self_output_file a) \<and>
        file_path \<notin> self_processed_files a \<and>
        \<not> is_file_processed e a file_path) (glob_json e)"

text \<open>\<open>[f"Previously processed video {i+1}" for i in range(total_videos)]\<close>, when a summary
  exists.\<close>

definition previous_summaries :: "agent \<Rightarrow> string list" where
  "previous_summaries a =
     (case self_overall_summary a of
        None \<Rightarrow> []
      | Some s \<Rightarrow>
          map (\<lambda>i. ''Previously processed video '' @ str_nat (i + 1))
            [0 ..< nat (total_videos s)])"

text \<open>
  The loop over \<open>new_files\<close>, with its three accumulators \<open>all_video_summaries\<close>,
  \<open>processed_file_paths\<close> and \<open>file_hashes\<close>. A file whose record list is empty leaves
  all three as they are.
\<close>

fun process_files ::
  "env \<Rightarrow> string list \<Rightarrow> string list \<times> string list \<times> (string \<times> string) list \<Rightarrow>
     string list \<times> string list \<times> (string \<times> string) list" where
  "process_files e [] acc = acc"
| "process_files e (file_path # rest) (all_video_summaries, processed_file_paths, hashes) =
     (let video_summaries = load_json_file e file_path
      in if video_summaries \<noteq> []
         then process_files e rest
                (all_video_summaries @ extract_ai_summaries video_summaries,
                 processed_file_paths @ [file_path],
                 AList.update file_path (get_file_hash e file_path) hashes)
         else process_files e rest (all_video_summaries, processed_file_paths, hashes))"

text \<open>\<open>d.update(other)\<close>: the entries of \<open>other\<close> in order, each replacing the value of a key
  already there or going to the end.\<close>

definition dict_update ::
  "(string \<times> string) list \<Rightarrow> (string \<times> string) list \<Rightarrow> (string \<times> string) list" where
  "dict_update d other = foldl (\<lambda>acc kv. AList.update (fst kv) (snd kv) acc) d other"

text \<open>The code from \<open>total_videos = len(all_video_summaries)\<close> to
  \<open>self.processed_files.update(processed_file_paths)\<close>: the new summary and the new set.\<close>

definition update_overall_summary ::
  "env \<Rightarrow> agent \<Rightarrow> string \<Rightarrow> string list \<Rightarrow> string list \<Rightarrow> (string \<times> string) list \<Rightarrow> agent" where
  "update_overall_summary e a overall_description all_video_summaries processed_file_paths hashes =
     (let total_videos = int (length all_video_summaries);
          total_files = int (length processed_file_paths) +
            (case self_overall_summary a of None \<Rightarrow> 0 | Some s \<Rightarrow> total_files s);
          all_processed_files = set_iter e (self_processed_files a) @ processed_file_paths;
          all_file_hashes =
            dict_update
              (case self_overall_summary a of
                 None \<Rightarrow> []
               | Some s \<Rightarrow> dict_update [] (file_hashes s))
              hashes
      in a\<lparr>self_overall_summary :=
             Some \<lparr>total_videos = total_videos,
                   total_files = total_files,
                   overall_ai_description = overall_description,
                   processed_files = all_processed_files,
                   file_hashes = all_file_hashes,
                   summary_metadata =
                     [(''model_used'', self_model a),
                      (''last_updated'', strftime e),
                      (''monitor_directory'', self_monitor_dir a)]\<rparr>,
           self_processed_files := self_processed_files a \<union> set processed_file_paths\<rparr>)"

text \<open>
  What a call of \<open>process_new_files\<close> leaves behind: its return value, the agent, the
  persisted file, and the argument lists of the calls it made to \<open>generate_summary\<close>.
\<close>

record cycle_result =
  returned :: bool
  agent_after :: agent
  disk_after :: "string option"
  generate_calls :: "string list list"

definition process_new_files :: "env \<Rightarrow> agent \<Rightarrow> string option \<Rightarrow> cycle_result" where
  "process_new_files e a disk =
     (if \<not> is_available e
      then \<lparr>returned = False, agent_after = a, disk_after = disk, generate_calls = []\<rparr>
      else
        (let new_files = new_files_of e a
         in if new_files = []
            then \<lparr>returned = True, agent_after = a, disk_after = disk, generate_calls = []\<rparr>
            else
              (case process_files e new_files (previous_summaries a, [], []) of
                 (all_video_summaries, processed_file_paths, hashes) \<Rightarrow>
                   if all_video_summaries = []
                   then \<lparr>returned = True, agent_after = a, disk_after = disk,
                         generate_calls = []\<rparr>
                   else
                     (let overall_description =
                            generate_summary e all_video_summaries (self_model a);
                          a' = update_overall_summary e a overall_description
                                 all_video_summaries processed_file_paths hashes
                      in \<lparr>returned = True, agent_after = a',
                          disk_after = save_summary e a' disk,
                          generate_calls = [all_video_summaries]\<rparr>))))"

text \<open>A sequence of cycles, one environment each, threading the agent and the file.\<close>

fun run_cycles :: "env list \<Rightarrow> agent \<times> string option \<Rightarrow> agent \<times> string option" where
  "run_cycles [] st = st"
| "run_cycles (e # es) (a, disk) =
     (let r = process_new_files e a disk in run_cycles es (agent_after r, disk_after r))"

subsection \<open>Observations and well-formedness\<close>

text \<open>
  The fields of the accumulated state read through the agent, with the values the code
  itself uses when there is no summary yet
  (\<open>self.overall_summary.total_files if self.overall_summary else 0\<close>).
\<close>

definition agent_total_files :: "agent \<Rightarrow> int" where
  "agent_total_files a = (case self_overall_summary a of None \<Rightarrow> 0 | Some s \<Rightarrow> total_files s)"

definition agent_total_videos :: "agent \<Rightarrow> int" where
  "agent_total_videos a = (case self_overall_summary a of None \<Rightarrow> 0 | Some s \<Rightarrow> total_videos s)"

definition agent_processed_list :: "agent \<Rightarrow> string list" where
  "agent_processed_list a =
     (case self_overall_summary a of None \<Rightarrow> [] | Some s \<Rightarrow> processed_files s)"

definition agent_file_hashes :: "agent \<Rightarrow> (string \<times> string) list" where
  "agent_file_hashes a =
     (case self_overall_summary a of None \<Rightarrow> [] | Some s \<Rightarrow> file_hashes s)"

text \<open>The new files of a cycle that the loop records: those whose record list is not
  empty, in the order of \<open>new_files\<close>.\<close>

definition recorded_files :: "env \<Rightarrow> agent \<Rightarrow> string list" where
  "recorded_files e a = filter (\<lambda>f. load_json_file e f \<noteq> []) (new_files_of e a)"

text \<open>The text items the new files of a cycle yield, file by file.\<close>

definition extracted_items :: "env \<Rightarrow> agent \<Rightarrow> string list" where
  "extracted_items e a =
     concat (map (\<lambda>f. extract_ai_summaries (load_json_file e f)) (new_files_of e a))"

text \<open>
  What is taken for granted of the outside world: a directory lists each path once, and
  \<open>list(S)\<close> enumerates each element of a finite set \<open>S\<close> once.
\<close>

definition env_ok :: "env \<Rightarrow> bool" where
  "env_ok e \<longleftrightarrow>
     distinct (glob_json e) \<and>
     (\<forall>S. finite S \<longrightarrow> set (set_iter e S) = S \<and> distinct (set_iter e S))"

text \<open>The agents that cycles produce from the empty state of \<open>__init__\<close>.\<close>

inductive reachable :: "agent \<Rightarrow> bool" where
  start: "reachable (init_agent monitor_dir output_file model)"
| cycle: "reachable a \<Longrightarrow> env_ok e \<Longrightarrow> reachable (agent_after (process_new_files e a disk))"

text \<open>
  The relation between the set \<open>self.processed_files\<close> and the summary that every
  reachable agent satisfies.
\<close>

definition agent_inv :: "agent \<Rightarrow> bool" where
  "agent_inv a \<longleftrightarrow>
     (case self_overall_summary a of
        None \<Rightarrow> self_processed_files a = {}
      | Some s \<Rightarrow>
          set (processed_files s) = self_processed_files a \<and>
          distinct (processed_files s) \<and>
          total_files s = int (length (processed_files s)) \<and>
          fst ` set (file_hashes s) \<subseteq> self_processed_files a \<and>
          distinct (map fst (file_hashes s)))"

text \<open>Two environments show the same directory: the same listing, the same bytes and the
  same records behind every path, hashed the same way.\<close>

definition same_directory :: "env \<Rightarrow> env \<Rightarrow> bool" where
  "same_directory e1 e2 \<longleftrightarrow>
     glob_json e2 = glob_json e1 \<and> read_bytes e2 = read_bytes e1 \<and>
     md5_hexdigest e2 = md5_hexdigest e1 \<and> load_json_file e2 = load_json_file e1"

text \<open>The local dict \<open>file_hashes\<close> at the end of the loop: one entry per recorded file.\<close>

definition recorded_hashes :: "env \<Rightarrow> agent \<Rightarrow> (string \<times> string) list" where
  "recorded_hashes e a =
     foldl (\<lambda>h f. AList.update f (get_file_hash e f) h) [] (recorded_files e a)"

subsection \<open>Example inputs\<close>

text \<open>
  A monitor directory \<open>video_summaries\<close> with four files. \<open>a.json\<close> is the file of the
  end-to-end scenario, two records with a summary each; \<open>b.json\<close> holds one record with
  a title only, \<open>c.json\<close> one with a description only; \<open>bad.json\<close> is not JSON, so
  \<open>load_json_file\<close> returns the empty list for it.
\<close>

definition content_a :: string where
  \<open>content_a = ''[{"ai_summary": "x"}, {"ai_summary": "y"}]''\<close>

definition content_b :: string where
  \<open>content_b = ''[{"title": "Intro"}]''\<close>

definition content_c :: string where
  \<open>content_c = ''[{"description": "z"}]''\<close>

definition content_bad :: string where
  \<open>content_bad = ''{not json''\<close>

definition example_contents :: "(string \<times> string) list" where
  "example_contents =
     [(''video_summaries/a.json'', content_a),
      (''video_summaries/b.json'', content_b),
      (''video_summaries/c.json'', content_c),
      (''video_summaries/bad.json'', content_bad)]"

definition video :: "string option \<Rightarrow> string option \<Rightarrow> string option \<Rightarrow> VideoSummary" where
  "video t d s =
     \<lparr>video_id = None, title = t, description = d, ai_summary = s, duration = None,
      metadata = None\<rparr>"

definition example_records :: "(string \<times> VideoSummary list) list" where
  "example_records =
     [(''video_summaries/a.json'', [video None None (Some ''x''), video None None (Some ''y'')]),
      (''video_summaries/b.json'', [video (Some ''Intro'') None None]),
      (''video_summaries/c.json'', [video None (Some ''z'') None])]"

text \<open>The MD5 hex digests of the four contents; no other content is hashed below.\<close>

definition example_md5 :: "string \<Rightarrow> string" where
  "example_md5 bytes =
     (case map_of
        [(content_a, ''49a6c026b44c8a96935cfa423784e024''),
         (content_b, ''3d9f965377f34308d6576ac914309fda''),
         (content_c, ''1562f0b9ad8787886bd472b0662ecf5e''),
         (content_bad, ''3dc44617c0740f37498f572c319693e4'')] bytes of
        Some h \<Rightarrow> h
      | None \<Rightarrow> ''d41d8cd98f00b204e9800998ecf8427e'')"

text \<open>
  A serializer to stand for \<open>json.dump(..., indent=2)\<close> in the examples: the document in
  the layout of \<open>indent=2\<close>, handed over one top-level member at a time. The strings of
  the examples hold no character that JSON escapes.
\<close>

definition nl :: string where
  "nl = [CHR 0x0A]"

definition json_str :: "string \<Rightarrow> string" where
  "json_str s = [CHR 0x22] @ s @ [CHR 0x22]"

fun join :: "string \<Rightarrow> string list \<Rightarrow> string" where
  "join sep [] = []"
| "join sep [x] = x"
| "join sep (x # y # rest) = x @ sep @ join sep (y # rest)"

definition json_list :: "string list \<Rightarrow> string" where
  "json_list items =
     (if items = [] then ''[]''
      else ''['' @ nl @ join ('','' @ nl) (map (\<lambda>i. ''    '' @ json_str i) items) @ nl @ ''  ]'')"

definition json_dict :: "(string \<times> string) list \<Rightarrow> string" where
  "json_dict d =
     (if d = [] then ''{}''
      else ''{'' @ nl @
           join ('','' @ nl) (map (\<lambda>kv. ''    '' @ json_str (fst kv) @ '': '' @ json_str (snd kv)) d) @
           nl @ ''  }'')"

definition str_int :: "int \<Rightarrow> string" where
  "str_int i = (if i < 0 then ''-'' @ str_nat (nat (- i)) else str_nat (nat i))"

definition example_dump :: "OverallSummary \<Rightarrow> string list" where
  "example_dump s =
     [''{'' @ nl,
      ''  '' @ json_str ''total_videos'' @ '': '' @ str_int (total_videos s) @ '','' @ nl,
      ''  '' @ json_str ''total_files'' @ '': '' @ str_int (total_files s) @ '','' @ nl,
      ''  '' @ json_str ''overall_ai_description'' @ '': '' @
         json_str (overall_ai_description s) @ '','' @ nl,
      ''  '' @ json_str ''processed_files'' @ '': '' @ json_list (processed_files s) @ '','' @ nl,
      ''  '' @ json_str ''file_hashes'' @ '': '' @ json_dict (file_hashes s) @ '','' @ nl,
      ''  '' @ json_str ''summary_metadata'' @ '': '' @ json_dict (summary_metadata s) @ nl,
      ''}'']"

text \<open>
  An environment over that directory: the files listed in \<open>listing\<close>, a language model
  that answers the two requests with \<open>classify\<close> and \<open>generate\<close>, a set that is
  enumerated in sorted order, and a disk that takes every write.
\<close>

definition example_env :: "string list \<Rightarrow> http \<Rightarrow> http \<Rightarrow> env" where
  "example_env listing classify generate =
     \<lparr>is_available = True,
      glob_json = listing,
      read_bytes = map_of example_contents,
      md5_hexdigest = example_md5,
      load_json_file = (\<lambda>p. case map_of example_records p of None \<Rightarrow> [] | Some vs \<Rightarrow> vs),
      set_iter = sorted_list_of_set,
      classify_post = (\<lambda>video_summaries model. classify),
      generate_post = (\<lambda>video_summaries model detail_level max_tokens. generate),
      strftime = ''2024-05-01 12:00:00'',
      json_dump = example_dump,
      disk_write = WriteOk\<rparr>"

definition example_agent :: agent where
  "example_agent = init_agent ''video_summaries'' ''overall_summary.json'' ''deepseek-r1:8b''"

text \<open>
  The first cycle of the end-to-end scenario: the directory holds \<open>a.json\<close>, there is no
  state yet, and the language model answers both requests.
\<close>

definition env_first :: env where
  "env_first =
     example_env [''video_summaries/a.json'']
       (Response (Some ''STANDARD'')) (Response (Some ''Two short videos.''))"

definition example_cycle1 :: cycle_result where
  "example_cycle1 = process_new_files env_first example_agent None"

definition example_summary1 :: OverallSummary where
  "example_summary1 =
     \<lparr>total_videos = 2, total_files = 1,
      overall_ai_description = ''Two short videos.'',
      processed_files = [''video_summaries/a.json''],
      file_hashes = [(''video_summaries/a.json'', ''49a6c026b44c8a96935cfa423784e024'')],
      summary_metadata =
        [(''model_used'', ''deepseek-r1:8b''),
         (''last_updated'', ''2024-05-01 12:00:00''),
         (''monitor_directory'', ''video_summaries'')]\<rparr>"


text \<open>
  A second cycle after \<open>example_cycle1\<close>: \<open>bad.json\<close> has appeared next to \<open>a.json\<close>.
  It is the only new file and yields no record.
\<close>

definition env_second :: env where
  "env_second =
     example_env [''video_summaries/a.json'', ''video_summaries/bad.json'']
       (Response (Some ''BRIEF'')) (Response (Some ''Nothing new.''))"

definition example_cycle2 :: cycle_result where
  "example_cycle2 =
     process_new_files env_second (agent_after example_cycle1) (disk_after example_cycle1)"

text \<open>The summary that second cycle builds, and the same directory and replies on a disk
  where the write after the third chunk of the document raises.\<close>

definition example_summary2 :: OverallSummary where
  "example_summary2 =
     \<lparr>total_videos = 2, total_files = 1,
      overall_ai_description = ''Nothing new.'',
      processed_files = [''video_summaries/a.json''],
      file_hashes = [(''video_summaries/a.json'', ''49a6c026b44c8a96935cfa423784e024'')],
      summary_metadata =
        [(''model_used'', ''deepseek-r1:8b''),
         (''last_updated'', ''2024-05-01 12:00:00''),
         (''monitor_directory'', ''video_summaries'')]\<rparr>"

definition env_crash :: env where
  "env_crash = env_second\<lparr>disk_write := WriteFails 3\<rparr>"

text \<open>
  A first cycle in which \<open>a.json\<close> is parsed by \<open>load_json_file\<close> and can no longer be
  read when \<open>_get_file_hash\<close> opens it, and a later directory with a file
  \<open>locked.json\<close> that cannot be read at all.
\<close>

definition env_vanish :: env where
  "env_vanish =
     (example_env [''video_summaries/a.json'']
        (Response (Some ''STANDARD'')) (Response (Some ''Two short videos.'')))
     \<lparr>read_bytes := (\<lambda>p. None)\<rparr>"

definition example_cycle_vanish :: cycle_result where
  "example_cycle_vanish = process_new_files env_vanish example_agent None"

definition env_locked :: env where
  "env_locked =
     example_env [''video_summaries/a.json'', ''video_summaries/locked.json'']
       (Response (Some ''STANDARD'')) (Response (Some ''Two short videos.''))"

text \<open>
  Two cycles for the order of \<open>processed_files\<close>: the directory lists \<open>b.json\<close> before
  \<open>a.json\<close>, and \<open>c.json\<close> arrives before the second cycle.
\<close>

definition env_ba :: env where
  "env_ba =
     example_env [''video_summaries/b.json'', ''video_summaries/a.json'']
       (Response (Some ''STANDARD'')) (Response (Some ''Three short videos.''))"

definition example_cycle_ba :: cycle_result where
  "example_cycle_ba = process_new_files env_ba example_agent None"

definition env_bac :: env where
  "env_bac =
     example_env
       [''video_summaries/b.json'', ''video_summaries/a.json'', ''video_summaries/c.json'']
       (Response (Some ''STANDARD'')) (Response (Some ''Four short videos.''))"

definition example_cycle_bac :: cycle_result where
  "example_cycle_bac =
     process_new_files env_bac (agent_after example_cycle_ba) (disk_after example_cycle_ba)"




text \<open>
  A first cycle over \<open>a.json\<close> and \<open>bad.json\<close>, to be followed by a cycle over the same
  directory in \<open>env_second\<close>, where the language model answers differently.
\<close>

definition env_mixed :: env where
  "env_mixed =
     example_env [''video_summaries/a.json'', ''video_summaries/bad.json'']
       (Response (Some ''STANDARD'')) (Response (Some ''Two short videos.''))"

definition example_cycle_mixed :: cycle_result where
  "example_cycle_mixed = process_new_files env_mixed example_agent None"

definition example_cycle_again :: cycle_result where
  "example_cycle_again =
     process_new_files env_second (agent_after example_cycle_mixed)
       (disk_after example_cycle_mixed)"

subsection \<open>The bookkeeping fields\<close>

text \<open>The fields of a summary that record which files and how many videos have been
  processed, and the same for an agent together with its set of processed paths (read
  as the empty set, the empty dict and \<open>0\<close> while there is no summary).\<close>

definition summary_bookkeeping ::
  "OverallSummary \<Rightarrow> string set \<times> (string \<times> string) list \<times> int \<times> int" where
  "summary_bookkeeping s = (set (processed_files s), file_hashes s, total_files s, total_videos s)"

definition bookkeeping ::
  "agent \<Rightarrow> string set \<times> string set \<times> (string \<times> string) list \<times> int \<times> int" where
  "bookkeeping a =
     (self_processed_files a, set (agent_processed_list a), agent_file_hashes a,
      agent_total_files a, agent_total_videos a)"

subsection \<open>The two ways a cycle ends\<close>

text \<open>
  A cycle reaches \<open>generate_summary\<close> when the probe succeeds, there are new files, and
  \<open>all_video_summaries\<close> is not empty after the loop; it then ends with the agent that
  \<open>update_overall_summary\<close> builds. In every other case it returns early.
\<close>

definition commits :: "env \<Rightarrow> agent \<Rightarrow> bool" where
  "commits e a \<longleftrightarrow>
     is_available e \<and> new_files_of e a \<noteq> [] \<and>
     previous_summaries a @ extracted_items e a \<noteq> []"

definition committed_agent :: "env \<Rightarrow> agent \<Rightarrow> agent" where
  "committed_agent e a =
     update_overall_summary e a
       (generate_summary e (previous_summaries a @ extracted_items e a) (self_model a))
       (previous_summaries a @ extracted_items e a) (recorded_files e a) (recorded_hashes e a)"

subsection \<open>Defining the class\<close>

text \<open>
  The class statement of \<open>ContinuousVideoAgent\<close> runs the \<open>def\<close> statements of its body
  in order. Up to Python 3.13, and without \<open>from __future__ import annotations\<close>, which
  the module does not have, a \<open>def\<close> evaluates the annotations of its parameters and of
  its result when it runs. A name is looked up among the names the class body has
  bound so far, then among the globals of the module, then among the builtins. A name
  that is bound nowhere raises \<open>NameError\<close>, and the class is not defined.
\<close>

datatype py_error = NameError string

text \<open>The names the module has bound when the class statement starts: its imports,
  \<open>console\<close> and the three classes before it.\<close>

definition module_globals :: "string list" where
  "module_globals =
     [''json'', ''os'', ''sys'', ''time'', ''hashlib'', ''signal'', ''threading'', ''Path'',
      ''List'', ''Dict'', ''Any'', ''Optional'', ''Set'', ''requests'', ''BaseModel'', ''Field'',
      ''Console'', ''Panel'', ''Progress'', ''SpinnerColumn'', ''TextColumn'', ''Table'',
      ''load_dotenv'', ''console'', ''VideoSummary'', ''OverallSummary'', ''OllamaClient'']"

text \<open>The builtins that the annotations of the class mention.\<close>

definition builtin_names :: "string list" where
  "builtin_names = [''str'', ''int'', ''bool'']"

text \<open>The methods of the class in the order of the source, each with the names its
  annotations mention, parameters first and the result last.\<close>

definition class_body :: "(string \<times> string list) list" where
  "class_body =
     [(''__init__'', [''str'', ''str'', ''str'', ''str'', ''int'']),
      (''_signal_handler'', []),
      (''_load_existing_summary'', []),
      (''_save_summary'', []),
      (''_get_file_hash'', [''str'', ''str'']),
      (''_is_file_processed'', [''str'', ''bool'']),
      (''load_json_file'', [''str'', ''List'', ''VideoSummaryf'']),
      (''extract_ai_summaries'', [''List'', ''VideoSummary'', ''List'', ''str'']),
      (''process_new_files'', [''bool'']),
      (''display_summary_info'', []),
      (''start'', []),
      (''stop'', [])]"

fun lookup_names :: "string list \<Rightarrow> string list \<Rightarrow> py_error option" where
  "lookup_names scope [] = None"
| "lookup_names scope (n # ns) =
     (if n \<in> set scope then lookup_names scope ns else Some (NameError n))"

text \<open>Running the body: the error of the first annotation that fails, or the methods
  that have been bound.\<close>

fun exec_class_body ::
  "string list \<Rightarrow> (string \<times> string list) list \<Rightarrow> py_error + string list" where
  "exec_class_body bound [] = Inr bound"
| "exec_class_body bound (method # rest) =
     (case lookup_names (bound @ module_globals @ builtin_names) (snd method) of
        Some err \<Rightarrow> Inl err
      | None \<Rightarrow> exec_class_body (bound @ [fst method]) rest)"

section \<open>Properties\<close>

subsection \<open>The loop and the dictionaries\<close>

lemma process_files_eq:
  "process_files e fs (al, ps, hs) =
     (al @ concat (map (\<lambda>f. extract_ai_summaries (load_json_file e f)) fs),
      ps @ filter (\<lambda>f. load_json_file e f \<noteq> []) fs,
      foldl (\<lambda>h f. AList.update f (get_file_hash e f) h) hs
        (filter (\<lambda>f. load_json_file e f \<noteq> []) fs))"
  by (induction fs arbitrary: al ps hs) (auto simp: Let_def)

lemma keys_fold_update:
  "fst ` set (foldl (\<lambda>h f. AList.update f (g f) h) hs fs) = fst ` set hs \<union> set fs"
  by (induction fs arbitrary: hs) (auto simp: dom_update)

lemma distinct_fold_update:
  "distinct (map fst hs) \<Longrightarrow> distinct (map fst (foldl (\<lambda>h f. AList.update f (g f) h) hs fs))"
  by (induction fs arbitrary: hs) (auto simp: distinct_update)

lemma keys_dict_update: "fst ` set (dict_update d other) = fst ` set d \<union> fst ` set other"
  unfolding dict_update_def
  by (induction other arbitrary: d) (auto simp: dom_update)

lemma distinct_dict_update:
  "distinct (map fst d) \<Longrightarrow> distinct (map fst (dict_update d other))"
  unfolding dict_update_def
  by (induction other arbitrary: d) (auto simp: distinct_update)

lemma update_append_fresh: "k \<notin> fst ` set d \<Longrightarrow> AList.update k v d = d @ [(k, v)]"
  by (induction d) auto

lemma dict_update_prefix:
  "distinct (map fst other) \<Longrightarrow> fst ` set d \<inter> fst ` set other = {} \<Longrightarrow> dict_update d other = d @ other"
  unfolding dict_update_def
proof (induction other arbitrary: d)
  case Nil show ?case by simp
next
  case (Cons kv other)
  have "AList.update (fst kv) (snd kv) d = d @ [kv]"
    using Cons.prems by (simp add: update_append_fresh)
  moreover have "foldl (\<lambda>acc kv. AList.update (fst kv) (snd kv) acc) (d @ [kv]) other = (d @ [kv]) @ other"
    using Cons.prems by (intro Cons.IH) auto
  ultimately show ?case by simp
qed

lemma dict_update_empty: "distinct (map fst d) \<Longrightarrow> dict_update [] d = d"
  using dict_update_prefix[of d "[]"] by simp



lemma process_new_files_unfold:
  "process_new_files e a disk =
     (if is_available e \<and> new_files_of e a \<noteq> [] \<and> previous_summaries a @ extracted_items e a \<noteq> []
      then \<lparr>returned = True,
            agent_after = update_overall_summary e a
              (generate_summary e (previous_summaries a @ extracted_items e a) (self_model a))
              (previous_summaries a @ extracted_items e a) (recorded_files e a) (recorded_hashes e a),
            disk_after = save_summary e (update_overall_summary e a
              (generate_summary e (previous_summaries a @ extracted_items e a) (self_model a))
              (previous_summaries a @ extracted_items e a) (recorded_files e a) (recorded_hashes e a)) disk,
            generate_calls = [previous_summaries a @ extracted_items e a]\<rparr>
      else \<lparr>returned = is_available e, agent_after = a, disk_after = disk, generate_calls = []\<rparr>)"
  by (auto simp: process_new_files_def process_files_eq Let_def extracted_items_def
        recorded_files_def recorded_hashes_def)

lemma new_files_fresh: "set (new_files_of e a) \<inter> self_processed_files a = {}"
  by (auto simp: new_files_of_def)

lemma distinct_new_files: "distinct (glob_json e) \<Longrightarrow> distinct (new_files_of e a)"
  by (simp add: new_files_of_def)

lemma recorded_fresh: "set (recorded_files e a) \<inter> self_processed_files a = {}"
  using new_files_fresh[of e a] by (auto simp: recorded_files_def)

lemma distinct_recorded: "env_ok e \<Longrightarrow> distinct (recorded_files e a)"
  by (simp add: recorded_files_def env_ok_def distinct_new_files)

lemma keys_recorded_hashes: "fst ` set (recorded_hashes e a) = set (recorded_files e a)"
  by (simp add: recorded_hashes_def keys_fold_update)

lemma distinct_recorded_hashes: "distinct (map fst (recorded_hashes e a))"
  by (simp add: recorded_hashes_def distinct_fold_update)

lemma agent_inv_finite: "agent_inv a \<Longrightarrow> finite (self_processed_files a)"
proof (cases "self_overall_summary a")
  case None
  assume "agent_inv a"
  with None show ?thesis by (simp add: agent_inv_def)
next
  case (Some s)
  assume "agent_inv a"
  with Some have "self_processed_files a = set (processed_files s)" by (simp add: agent_inv_def)
  then show ?thesis by simp
qed

lemma set_iter_length:
  assumes "env_ok e" "agent_inv a"
  shows "int (length (set_iter e (self_processed_files a))) = agent_total_files a"
proof (cases "self_overall_summary a")
  case None
  with assms have "self_processed_files a = {}" by (simp add: agent_inv_def)
  moreover from assms(1) have "set (set_iter e {}) = {}" by (simp add: env_ok_def)
  ultimately show ?thesis using None by (simp add: agent_total_files_def)
next
  case (Some s)
  from assms Some have s: "set (processed_files s) = self_processed_files a"
    "distinct (processed_files s)" "total_files s = int (length (processed_files s))"
    by (auto simp: agent_inv_def)
  from assms have it: "set (set_iter e (self_processed_files a)) = self_processed_files a"
    "distinct (set_iter e (self_processed_files a))"
    using agent_inv_finite by (auto simp: env_ok_def)
  have "length (set_iter e (self_processed_files a)) = card (self_processed_files a)"
    using it distinct_card by metis
  also have "\<dots> = length (processed_files s)" using s distinct_card by metis
  finally show ?thesis using Some s by (simp add: agent_total_files_def)
qed

lemma update_overall_summary_inv:
  assumes "env_ok e" "agent_inv a"
  shows "agent_inv (update_overall_summary e a d alls (recorded_files e a) (recorded_hashes e a))"
proof -
  let ?S = "self_processed_files a"
  from assms have it: "set (set_iter e ?S) = ?S" "distinct (set_iter e ?S)"
    using agent_inv_finite by (auto simp: env_ok_def)
  have len: "int (length (set_iter e ?S)) = agent_total_files a"
    using assms by (rule set_iter_length)
  have keys_old: "fst ` set (agent_file_hashes a) \<subseteq> ?S" "distinct (map fst (agent_file_hashes a))"
    using assms(2) by (auto simp: agent_inv_def agent_file_hashes_def split: option.splits)
  have old_eq: "(case self_overall_summary a of None \<Rightarrow> [] | Some s \<Rightarrow> dict_update [] (file_hashes s))
      = agent_file_hashes a"
    using keys_old(2) by (auto simp: agent_file_hashes_def dict_update_empty split: option.splits)
  show ?thesis
    using it len keys_old recorded_fresh[of e a] distinct_recorded[OF assms(1), of a]
    by (auto simp: agent_inv_def update_overall_summary_def Let_def old_eq keys_dict_update
          distinct_dict_update keys_recorded_hashes agent_total_files_def split: option.splits)
qed

lemma process_new_files_inv:
  "env_ok e \<Longrightarrow> agent_inv a \<Longrightarrow> agent_inv (agent_after (process_new_files e a disk))"
  by (simp add: process_new_files_unfold update_overall_summary_inv)

lemma init_agent_inv: "agent_inv (init_agent d f m)"
  by (simp add: agent_inv_def init_agent_def)

lemma reachable_inv: "reachable a \<Longrightarrow> agent_inv a"
  by (induction rule: reachable.induct) (auto simp: init_agent_inv process_new_files_inv)


subsection \<open>Growth of the bookkeeping\<close>

lemma update_overall_summary_mono:
  fixes d alls
  assumes "env_ok e" "agent_inv a"
  defines "a' \<equiv> update_overall_summary e a d alls (recorded_files e a) (recorded_hashes e a)"
  shows "agent_total_files a \<le> agent_total_files a'"
    and "length (agent_processed_list a) \<le> length (agent_processed_list a')"
    and "fst ` set (agent_file_hashes a) \<subseteq> fst ` set (agent_file_hashes a')"
proof -
  have len: "int (length (set_iter e (self_processed_files a))) = agent_total_files a"
    using assms(1,2) by (rule set_iter_length)
  have old: "agent_total_files a = int (length (agent_processed_list a))"
    using assms(2) by (auto simp: agent_inv_def agent_total_files_def agent_processed_list_def
        split: option.splits)
  show "agent_total_files a \<le> agent_total_files a'"
    by (simp add: a'_def update_overall_summary_def Let_def agent_total_files_def
          split: option.splits)
  show "length (agent_processed_list a) \<le> length (agent_processed_list a')"
    using len old
    by (simp add: a'_def update_overall_summary_def Let_def agent_processed_list_def)
  show "fst ` set (agent_file_hashes a) \<subseteq> fst ` set (agent_file_hashes a')"
  proof (cases "self_overall_summary a")
    case None
    then show ?thesis by (simp add: agent_file_hashes_def)
  next
    case (Some s)
    then have "fst ` set (agent_file_hashes a') =
        fst ` set (file_hashes s) \<union> fst ` set (recorded_hashes e a)"
      by (simp add: a'_def update_overall_summary_def Let_def agent_file_hashes_def
            keys_dict_update)
    with Some show ?thesis by (simp add: agent_file_hashes_def)
  qed
qed

lemma process_new_files_mono:
  assumes "env_ok e" "agent_inv a"
  shows "agent_total_files a \<le> agent_total_files (agent_after (process_new_files e a disk)) \<and>
         length (agent_processed_list a)
           \<le> length (agent_processed_list (agent_after (process_new_files e a disk))) \<and>
         fst ` set (agent_file_hashes a)
           \<subseteq> fst ` set (agent_file_hashes (agent_after (process_new_files e a disk)))"
  using update_overall_summary_mono[OF assms]
  by (simp add: process_new_files_unfold)

lemma run_cycles_mono:
  "agent_inv a \<Longrightarrow> list_all env_ok es \<Longrightarrow> run_cycles es (a, disk) = (a', disk') \<Longrightarrow>
     agent_inv a' \<and>
     agent_total_files a \<le> agent_total_files a' \<and>
     length (agent_processed_list a) \<le> length (agent_processed_list a') \<and>
     fst ` set (agent_file_hashes a) \<subseteq> fst ` set (agent_file_hashes a')"
proof (induction es arbitrary: a disk)
  case Nil
  then show ?case by simp
next
  case (Cons e es)
  let ?r = "process_new_files e a disk"
  from Cons.prems have ok: "env_ok e" "list_all env_ok es" by simp_all
  have inv1: "agent_inv (agent_after ?r)" using ok(1) Cons.prems(1) by (rule process_new_files_inv)
  have step: "agent_total_files a \<le> agent_total_files (agent_after ?r)"
    "length (agent_processed_list a) \<le> length (agent_processed_list (agent_after ?r))"
    "fst ` set (agent_file_hashes a) \<subseteq> fst ` set (agent_file_hashes (agent_after ?r))"
    using process_new_files_mono[OF ok(1) Cons.prems(1), of disk] by simp_all
  have "run_cycles es (agent_after ?r, disk_after ?r) = (a', disk')"
    using Cons.prems(3) by (simp add: Let_def)
  from Cons.IH[OF inv1 ok(2) this] step show ?case by auto
qed

subsection \<open>The scan over the tiers\<close>



subsection \<open>The example inputs\<close>

lemma env_ok_example: "distinct listing \<Longrightarrow> env_ok (example_env listing c g)"
  by (simp add: env_ok_def example_env_def)

lemma example_agent_reachable: "reachable example_agent"
  unfolding example_agent_def by (rule reachable.start)

lemma example_cycle1_summary:
  "self_overall_summary (agent_after example_cycle1) = Some example_summary1"
  unfolding example_cycle1_def env_first_def example_summary1_def by code_simp

lemma example_cycle2_summary:
  "self_overall_summary (agent_after example_cycle2) = Some example_summary2"
  unfolding example_cycle2_def example_cycle1_def env_second_def env_first_def
    example_summary2_def
  by code_simp

lemma example_cycle1_reachable: "reachable (agent_after example_cycle1)"
  unfolding example_cycle1_def
  by (rule reachable.cycle[OF example_agent_reachable])
     (simp add: env_first_def env_ok_example)

subsection \<open>A cycle without items, and the test for processed files\<close>

text \<open>Without placeholders of an earlier summary, new files that yield no item leave
  everything as it was and no request is made.\<close>

lemma process_new_files_no_items:
  "previous_summaries a = [] \<Longrightarrow> extracted_items e a = [] \<Longrightarrow>
     process_new_files e a disk =
       \<lparr>returned = is_available e, agent_after = a, disk_after = disk, generate_calls = []\<rparr>"
  by (simp add: process_new_files_unfold)

lemma previous_summaries_empty:
  "previous_summaries a = [] \<longleftrightarrow>
     (case self_overall_summary a of None \<Rightarrow> True | Some s \<Rightarrow> total_videos s \<le> 0)"
  by (auto simp: previous_summaries_def split: option.splits)

text \<open>The test for a processed file compares the digest that \<open>_get_file_hash\<close> returns,
  which is the empty string for a file that cannot be read.\<close>

lemma is_file_processed_iff:
  "is_file_processed e a p \<longleftrightarrow>
     p \<in> self_processed_files a \<or>
     (\<exists>s. self_overall_summary a = Some s \<and> get_file_hash e p \<in> snd ` set (file_hashes s))"
  by (auto simp: is_file_processed_def split: option.splits)

lemma is_file_processed_unreadable:
  "read_bytes e p = None \<Longrightarrow>
     is_file_processed e a p \<longleftrightarrow>
       p \<in> self_processed_files a \<or> [] \<in> snd ` set (agent_file_hashes a)"
proof (cases "self_overall_summary a")
  case None
  then show ?thesis by (simp add: is_file_processed_def agent_file_hashes_def)
next
  case (Some s)
  assume "read_bytes e p = None"
  with Some show ?thesis
    by (auto simp: is_file_processed_def get_file_hash_def agent_file_hashes_def)
qed

subsection \<open>Writing the persisted file\<close>

lemma prefix_concat_take: "prefix (concat (take i xs)) (concat xs)"
proof -
  have "concat xs = concat (take i xs) @ concat (drop i xs)"
    by (metis append_take_drop_id concat_append)
  then show ?thesis by (metis prefixI)
qed

lemma foldl_file_write:
  "foldl (\<lambda>file chunk. file_write chunk file) (Some written) chunks
     = Some (written @ concat chunks)"
  by (induction chunks arbitrary: written) (simp_all add: file_write_def)

lemma dump_after_open:
  "foldl (\<lambda>file chunk. file_write chunk file) (open_w disk) chunks = Some (concat chunks)"
  by (simp add: open_w_def foldl_file_write)

lemma save_summary_cases:
  assumes "self_overall_summary a = Some s"
  shows "save_summary e a disk =
           (case disk_write e of
              OpenFails \<Rightarrow> disk
            | WriteFails k \<Rightarrow> Some (concat (take k (json_dump e s)))
            | WriteOk \<Rightarrow> Some (concat (json_dump e s)))"
  using assms by (simp add: save_summary_def dump_after_open split: write_outcome.splits)

lemma dump_states_length:
  "length (dump_states out chunks) = Suc (length chunks)"
  by (induction chunks arbitrary: out) simp_all

lemma dump_states_nth:
  "i \<le> length chunks \<Longrightarrow>
     dump_states out chunks ! i = foldl (\<lambda>file chunk. file_write chunk file) out (take i chunks)"
proof (induction chunks arbitrary: out i)
  case Nil
  then show ?case by simp
next
  case (Cons chunk rest)
  show ?case
  proof (cases i)
    case 0
    then show ?thesis by simp
  next
    case (Suc j)
    with Cons.prems have "j \<le> length rest" by simp
    from Cons.IH[OF this] Suc show ?thesis by simp
  qed
qed

lemma dump_states_open:
  "dump_states (open_w disk) chunks
     = map (\<lambda>i. Some (concat (take i chunks))) [0 ..< Suc (length chunks)]"
proof (rule nth_equalityI)
  show "length (dump_states (open_w disk) chunks)
          = length (map (\<lambda>i. Some (concat (take i chunks))) [0 ..< Suc (length chunks)])"
    by (simp add: dump_states_length)
next
  fix i assume "i < length (dump_states (open_w disk) chunks)"
  then have i: "i \<le> length chunks" by (simp add: dump_states_length)
  then have "i < Suc (length chunks)" by simp
  then have "map (\<lambda>i. Some (concat (take i chunks))) [0 ..< Suc (length chunks)] ! i
               = Some (concat (take i chunks))"
    by (simp only: nth_map_upt diff_zero add_0)
  with dump_states_nth[OF i, of "open_w disk"] dump_after_open[of disk "take i chunks"]
  show "dump_states (open_w disk) chunks ! i
          = map (\<lambda>i. Some (concat (take i chunks))) [0 ..< Suc (length chunks)] ! i"
    by simp
qed

lemma save_summary_states_Some:
  assumes "self_overall_summary a = Some s"
  shows "hd (save_summary_states e a disk) = disk"
    and "last (save_summary_states e a disk) = Some (concat (json_dump e s))"
    and "\<forall>d \<in> set (tl (save_summary_states e a disk)).
           \<exists>doc. d = Some doc \<and> prefix doc (concat (json_dump e s))"
    and "length (save_summary_states e a disk) = length (json_dump e s) + 2"
    and "save_summary_states e a disk ! 0 = disk"
    and "save_summary_states e a disk ! 1 = Some []"
    and "\<forall>i \<le> length (json_dump e s).
           save_summary_states e a disk ! Suc i = Some (concat (take i (json_dump e s)))"
proof -
  let ?f = "\<lambda>i. Some (concat (take i (json_dump e s)))"
  let ?n = "length (json_dump e s)"
  have st: "save_summary_states e a disk = disk # map ?f [0 ..< Suc ?n]"
    using assms by (simp add: save_summary_states_def dump_states_open)
  show "hd (save_summary_states e a disk) = disk" by (simp add: st)
  have "last (map ?f [0 ..< Suc ?n]) = ?f ?n"
    by (simp add: last_map)
  then show "last (save_summary_states e a disk) = Some (concat (json_dump e s))"
    by (simp add: st)
  show "\<forall>d \<in> set (tl (save_summary_states e a disk)).
           \<exists>doc. d = Some doc \<and> prefix doc (concat (json_dump e s))"
    unfolding st by (auto simp: prefix_concat_take simp del: upt_Suc)
  show "length (save_summary_states e a disk) = length (json_dump e s) + 2"
    by (simp add: st)
  show "save_summary_states e a disk ! 0 = disk" by (simp add: st)
  have nth: "map ?f [0 ..< Suc ?n] ! i = ?f i" if "i \<le> ?n" for i
  proof -
    from that have "i < Suc ?n" by simp
    then show ?thesis by (simp only: nth_map_upt diff_zero add_0)
  qed
  from nth[of 0] show "save_summary_states e a disk ! 1 = Some []"
    by (simp add: st del: upt_Suc)
  show "\<forall>i \<le> length (json_dump e s).
           save_summary_states e a disk ! Suc i = Some (concat (take i (json_dump e s)))"
    using nth by (simp add: st del: upt_Suc)
qed

lemma save_summary_in_states:
  assumes "self_overall_summary a = Some s"
  shows "save_summary e a disk \<in> set (save_summary_states e a disk)"
proof -
  let ?n = "length (json_dump e s)"
  let ?st = "save_summary_states e a disk"
  note len = save_summary_states_Some(4)[OF assms, of e disk]
  note nth = save_summary_states_Some(7)[OF assms, of e disk, THEN spec, THEN mp]
  have at: "?st ! Suc (min k ?n) = Some (concat (take k (json_dump e s)))" for k
  proof -
    have "?st ! Suc (min k ?n) = Some (concat (take (min k ?n) (json_dump e s)))"
      by (rule nth) simp
    moreover have "take (min k ?n) (json_dump e s) = take k (json_dump e s)"
      by (cases "k \<le> ?n") (simp_all add: min_def)
    ultimately show ?thesis by simp
  qed
  have mem: "?st ! i \<in> set ?st" if "i < ?n + 2" for i
    using that len by (metis nth_mem)
  show ?thesis
  proof (cases "disk_write e")
    case OpenFails
    from mem[of 0] save_summary_states_Some(5)[OF assms, of e disk]
    show ?thesis by (simp add: save_summary_cases[OF assms] OpenFails)
  next
    case (WriteFails k)
    have "Suc (min k ?n) < ?n + 2" by simp
    from mem[OF this] at[of k]
    show ?thesis by (simp add: save_summary_cases[OF assms] WriteFails)
  next
    case WriteOk
    have "Suc (min ?n ?n) < ?n + 2" by simp
    from mem[OF this] at[of ?n]
    show ?thesis by (simp add: save_summary_cases[OF assms] WriteOk)
  qed
qed

lemma save_summary_not_atomic:
  assumes "self_overall_summary a = Some s"
    and "disk \<noteq> Some []" and "concat (json_dump e s) \<noteq> []"
  shows "\<exists>d \<in> set (save_summary_states e a disk).
           d \<noteq> disk \<and> d \<noteq> Some (concat (json_dump e s))"
proof -
  let ?st = "save_summary_states e a disk"
  have "1 < length ?st"
    by (simp add: save_summary_states_Some(4)[OF assms(1)])
  then have "?st ! 1 \<in> set ?st" by (rule nth_mem)
  then have "Some [] \<in> set ?st"
    by (simp only: save_summary_states_Some(6)[OF assms(1)])
  moreover have "Some [] \<noteq> disk" using assms(2) by simp
  moreover have "Some [] \<noteq> Some (concat (json_dump e s))" using assms(3) by simp
  ultimately show ?thesis by blast
qed

subsection \<open>The hashes a cycle records\<close>




subsection \<open>A second cycle over the same directory\<close>

lemma process_new_files_commits:
  "commits e a \<Longrightarrow>
     process_new_files e a disk =
       \<lparr>returned = True, agent_after = committed_agent e a,
        disk_after = save_summary e (committed_agent e a) disk,
        generate_calls = [previous_summaries a @ extracted_items e a]\<rparr>"
  unfolding commits_def committed_agent_def
  by (subst process_new_files_unfold) (simp only: if_True simp_thms)

lemma process_new_files_returns_early:
  "\<not> commits e a \<Longrightarrow>
     process_new_files e a disk =
       \<lparr>returned = is_available e, agent_after = a, disk_after = disk, generate_calls = []\<rparr>"
  unfolding commits_def
  by (subst process_new_files_unfold) (simp only: if_False simp_thms if_not_P)

lemma same_directory_hash:
  "same_directory e1 e2 \<Longrightarrow> get_file_hash e2 p = get_file_hash e1 p"
  by (auto simp: same_directory_def get_file_hash_def split: option.splits)

lemma same_directory_processed:
  "same_directory e1 e2 \<Longrightarrow> is_file_processed e2 a p = is_file_processed e1 a p"
proof -
  assume "same_directory e1 e2"
  then have h: "get_file_hash e2 p = get_file_hash e1 p" by (rule same_directory_hash)
  show ?thesis unfolding is_file_processed_def h ..
qed

lemma same_directory_new_files:
  "same_directory e1 e2 \<Longrightarrow> new_files_of e2 a = new_files_of e1 a"
proof -
  assume s: "same_directory e1 e2"
  then have g: "glob_json e2 = glob_json e1" by (simp add: same_directory_def)
  show ?thesis
    unfolding new_files_of_def g
    by (rule filter_cong[OF refl]) (simp add: same_directory_processed[OF s])
qed

lemma same_directory_recorded:
  "same_directory e1 e2 \<Longrightarrow> recorded_files e2 a = recorded_files e1 a"
proof -
  assume s: "same_directory e1 e2"
  then have l: "load_json_file e2 = load_json_file e1" by (simp add: same_directory_def)
  show ?thesis
    unfolding recorded_files_def l same_directory_new_files[OF s] ..
qed

lemma same_directory_items:
  "same_directory e1 e2 \<Longrightarrow> extracted_items e2 a = extracted_items e1 a"
proof -
  assume s: "same_directory e1 e2"
  then have l: "load_json_file e2 = load_json_file e1" by (simp add: same_directory_def)
  show ?thesis
    unfolding extracted_items_def l same_directory_new_files[OF s] ..
qed

lemma same_directory_commits:
  "same_directory e1 e2 \<Longrightarrow> is_available e1 \<Longrightarrow> commits e2 a \<Longrightarrow> commits e1 a"
  by (simp add: commits_def same_directory_new_files same_directory_items)

lemma extracted_items_recorded:
  "recorded_files e a = [] \<Longrightarrow> extracted_items e a = []"
proof -
  assume "recorded_files e a = []"
  then have "\<forall>f \<in> set (new_files_of e a). load_json_file e f = []"
    by (auto simp: recorded_files_def filter_empty_conv)
  then show ?thesis by (simp add: extracted_items_def)
qed

lemma committed_fields:
  "self_processed_files (committed_agent e a) = self_processed_files a \<union> set (recorded_files e a)"
  "self_output_file (committed_agent e a) = self_output_file a"
  "agent_file_hashes (committed_agent e a)
     = dict_update (dict_update [] (agent_file_hashes a)) (recorded_hashes e a)"
  "agent_total_videos (committed_agent e a)
     = int (length (previous_summaries a @ extracted_items e a))"
  "agent_total_files (committed_agent e a)
     = int (length (recorded_files e a)) + agent_total_files a"
  "agent_processed_list (committed_agent e a)
     = set_iter e (self_processed_files a) @ recorded_files e a"
  "self_overall_summary (committed_agent e a) \<noteq> None"
  by (simp_all add: committed_agent_def update_overall_summary_def Let_def
        agent_file_hashes_def agent_total_videos_def agent_total_files_def
        agent_processed_list_def dict_update_def split: option.splits)

lemma agent_inv_hashes:
  "agent_inv a \<Longrightarrow> distinct (map fst (agent_file_hashes a))"
  "agent_inv a \<Longrightarrow> fst ` set (agent_file_hashes a) \<subseteq> self_processed_files a"
  by (auto simp: agent_inv_def agent_file_hashes_def split: option.splits)

lemma committed_hashes_append:
  assumes "agent_inv a"
  shows "agent_file_hashes (committed_agent e a) = agent_file_hashes a @ recorded_hashes e a"
proof -
  have d: "distinct (map fst (agent_file_hashes a))"
    and k: "fst ` set (agent_file_hashes a) \<subseteq> self_processed_files a"
    using assms by (rule agent_inv_hashes)+
  have disj: "fst ` set (agent_file_hashes a) \<inter> fst ` set (recorded_hashes e a) = {}"
    using k recorded_fresh[of e a] unfolding keys_recorded_hashes by blast
  have "dict_update [] (agent_file_hashes a) = agent_file_hashes a"
    using d by (rule dict_update_empty)
  moreover have "dict_update (agent_file_hashes a) (recorded_hashes e a)
      = agent_file_hashes a @ recorded_hashes e a"
    using distinct_recorded_hashes disj by (rule dict_update_prefix)
  ultimately show ?thesis by (simp only: committed_fields(3))
qed

lemma is_file_processed_alt:
  "is_file_processed e a p \<longleftrightarrow>
     p \<in> self_processed_files a \<or> get_file_hash e p \<in> snd ` set (agent_file_hashes a)"
  by (cases "self_overall_summary a")
     (auto simp: is_file_processed_def agent_file_hashes_def)

lemma processed_after_commit:
  assumes "agent_inv a" and "is_file_processed e a f"
  shows "is_file_processed e (committed_agent e a) f"
proof -
  from assms(2) have "f \<in> self_processed_files a \<or>
      get_file_hash e f \<in> snd ` set (agent_file_hashes a)"
    by (simp only: is_file_processed_alt)
  then have "f \<in> self_processed_files (committed_agent e a) \<or>
      get_file_hash e f \<in> snd ` set (agent_file_hashes (committed_agent e a))"
    unfolding committed_fields(1) committed_hashes_append[OF assms(1)] by auto
  then show ?thesis by (simp only: is_file_processed_alt)
qed

lemma nothing_recorded_again:
  assumes inv: "agent_inv a"
  shows "recorded_files e (committed_agent e a) = []"
proof -
  let ?a' = "committed_agent e a"
  have "load_json_file e f = []" if f: "f \<in> set (new_files_of e ?a')" for f
  proof (rule ccontr)
    assume ne: "load_json_file e f \<noteq> []"
    from f have g: "f \<in> set (glob_json e)"
      and n: "path_name f \<noteq> path_name (self_output_file a)"
      and notin: "f \<notin> self_processed_files ?a'"
      and np: "\<not> is_file_processed e ?a' f"
      unfolding new_files_of_def committed_fields(2) by simp_all
    have "\<not> is_file_processed e a f"
      using processed_after_commit[OF inv] np by blast
    moreover have old: "f \<notin> self_processed_files a"
      using notin unfolding committed_fields(1) by simp
    ultimately have "f \<in> set (new_files_of e a)"
      using g n unfolding new_files_of_def by simp
    with ne have "f \<in> set (recorded_files e a)"
      unfolding recorded_files_def by simp
    with notin show False unfolding committed_fields(1) by simp
  qed
  then show ?thesis
    unfolding recorded_files_def by (simp add: filter_empty_conv)
qed


lemma length_previous_summaries:
  "length (previous_summaries a) = nat (agent_total_videos a)"
  by (simp add: previous_summaries_def agent_total_videos_def split: option.splits)

lemma committed_agent_inv: "env_ok e \<Longrightarrow> agent_inv a \<Longrightarrow> agent_inv (committed_agent e a)"
  unfolding committed_agent_def by (rule update_overall_summary_inv)

lemma agent_inv_list:
  "agent_inv a \<Longrightarrow> set (agent_processed_list a) = self_processed_files a"
  by (auto simp: agent_inv_def agent_processed_list_def split: option.splits)

lemma commit_again_bookkeeping:
  assumes inv: "agent_inv a" and ok1: "env_ok e1" and ok2: "env_ok e2"
    and same: "same_directory e1 e2"
  shows "bookkeeping (committed_agent e2 (committed_agent e1 a))
           = bookkeeping (committed_agent e1 a)"
proof -
  let ?a1 = "committed_agent e1 a"
  let ?a2 = "committed_agent e2 ?a1"
  have inv1: "agent_inv ?a1" using ok1 inv by (rule committed_agent_inv)
  have rec: "recorded_files e2 ?a1 = []"
    using nothing_recorded_again[OF inv, of e1] same_directory_recorded[OF same, of ?a1]
    by simp
  have items: "extracted_items e2 ?a1 = []"
    using rec by (rule extracted_items_recorded)
  have rh: "recorded_hashes e2 ?a1 = []"
    unfolding recorded_hashes_def rec by simp
  have S: "self_processed_files ?a2 = self_processed_files ?a1"
    unfolding committed_fields(1)[of e2 ?a1] rec by simp
  have fin: "finite (self_processed_files ?a1)" using inv1 by (rule agent_inv_finite)
  have L: "set (agent_processed_list ?a2) = set (agent_processed_list ?a1)"
    unfolding committed_fields(6)[of e2 ?a1] rec agent_inv_list[OF inv1]
    using ok2 fin by (simp add: env_ok_def)
  have H: "agent_file_hashes ?a2 = agent_file_hashes ?a1"
    unfolding committed_hashes_append[OF inv1, of e2] rh by simp
  have F: "agent_total_files ?a2 = agent_total_files ?a1"
    unfolding committed_fields(5)[of e2 ?a1] rec by simp
  have "0 \<le> agent_total_videos ?a1"
    unfolding committed_fields(4)[of e1 a] by simp
  then have V: "agent_total_videos ?a2 = agent_total_videos ?a1"
    unfolding committed_fields(4)[of e2 ?a1] items
    by (simp add: length_previous_summaries)
  show ?thesis
    unfolding bookkeeping_def S L H F V ..
qed

lemma bookkeeping_Some:
  "self_overall_summary a = Some s \<Longrightarrow>
     bookkeeping a = (self_processed_files a, summary_bookkeeping s)"
  by (simp add: bookkeeping_def summary_bookkeeping_def agent_processed_list_def
        agent_file_hashes_def agent_total_files_def agent_total_videos_def)

lemma save_summary_ok:
  "self_overall_summary a = Some s \<Longrightarrow> disk_write e = WriteOk \<Longrightarrow>
     save_summary e a disk = Some (concat (json_dump e s))"
  by (simp add: save_summary_cases)



subsection \<open>New files that yield no record, and a failed request\<close>


section \<open>The claims\<close>

subsection \<open>The complexity classifier\<close>



subsection \<open>The invariant of the accumulated state\<close>

text \<open>
  C5. Every accumulated state that cycles produce from the empty state of \<open>__init__\<close>
  satisfies: the number of entries of \<open>processed_files\<close> equals \<open>total_files\<close>, and
  every key of \<open>file_hashes\<close> is an entry of \<open>processed_files\<close>.
\<close>

theorem reachable_state_invariant:
  "reachable a \<Longrightarrow> self_overall_summary a = Some s \<Longrightarrow>
     int (length (processed_files s)) = total_files s \<and>
     fst ` set (file_hashes s) \<subseteq> set (processed_files s)"
  using reachable_inv[of a] by (simp add: agent_inv_def)

theorem reachable_state_invariant_witness:
  "reachable (agent_after example_cycle1) \<and>
   self_overall_summary (agent_after example_cycle1) = Some example_summary1 \<and>
   int (length (processed_files example_summary1)) = total_files example_summary1 \<and>
   fst ` set (file_hashes example_summary1) \<subseteq> set (processed_files example_summary1)"
  using reachable_state_invariant[OF example_cycle1_reachable example_cycle1_summary]
    example_cycle1_reachable example_cycle1_summary
  by simp

subsection \<open>Monotonicity across cycles\<close>

text \<open>
  C7. Across any sequence of cycles run from a reachable agent, \<open>total_files\<close> and the
  length of \<open>processed_files\<close> do not decrease, and the keys of \<open>file_hashes\<close> in the
  later state include the keys in the earlier one. Before the first summary exists the
  three are read as \<open>0\<close>, the empty list and the empty dict.
\<close>

theorem cycles_monotone:
  "reachable a \<Longrightarrow> list_all env_ok es \<Longrightarrow> run_cycles es (a, disk) = (a', disk') \<Longrightarrow>
     agent_total_files a \<le> agent_total_files a' \<and>
     length (agent_processed_list a) \<le> length (agent_processed_list a') \<and>
     fst ` set (agent_file_hashes a) \<subseteq> fst ` set (agent_file_hashes a')"
  using run_cycles_mono[OF reachable_inv] by blast

theorem cycles_monotone_witness:
  "reachable example_agent \<and> list_all env_ok [env_first] \<and>
   run_cycles [env_first] (example_agent, None)
     = (agent_after example_cycle1, disk_after example_cycle1) \<and>
   agent_total_files example_agent \<le> agent_total_files (agent_after example_cycle1) \<and>
   length (agent_processed_list example_agent)
     \<le> length (agent_processed_list (agent_after example_cycle1)) \<and>
   fst ` set (agent_file_hashes example_agent)
     \<subseteq> fst ` set (agent_file_hashes (agent_after example_cycle1))"
proof -
  have ok: "list_all env_ok [env_first]"
    by (simp add: env_first_def env_ok_example)
  have run: "run_cycles [env_first] (example_agent, None)
      = (agent_after example_cycle1, disk_after example_cycle1)"
    by (simp add: example_cycle1_def Let_def)
  from cycles_monotone[OF example_agent_reachable ok run] example_agent_reachable ok run
  show ?thesis by simp
qed

subsection \<open>A cycle whose new files yield nothing\<close>

text \<open>
  C1. A cycle in which the new files together yield no item is to call
  \<open>generate_summary\<close> not at all and to leave the summary, the set of processed files
  and the persisted file as they are, also when a summary exists already. The code
  tests \<open>all_video_summaries\<close>, which by then holds one placeholder for each video of
  the earlier summary. After \<open>example_cycle1\<close> (two videos) the new file \<open>bad.json\<close>
  yields no item, and yet \<open>generate_summary\<close> is called with the two placeholders, the
  summary is replaced and the persisted file is rewritten.
\<close>

theorem process_new_files_placeholders_regenerate:
  "new_files_of env_second (agent_after example_cycle1) = [''video_summaries/bad.json''] \<and>
   extracted_items env_second (agent_after example_cycle1) = [] \<and>
   generate_calls example_cycle2
     = [[''Previously processed video 1'', ''Previously processed video 2'']] \<and>
   self_overall_summary (agent_after example_cycle2)
     \<noteq> self_overall_summary (agent_after example_cycle1) \<and>
   disk_after example_cycle2 \<noteq> disk_after example_cycle1"
proof (intro conjI)
  show "new_files_of env_second (agent_after example_cycle1) = [''video_summaries/bad.json'']"
    unfolding example_cycle1_def env_second_def env_first_def by code_simp
  show "extracted_items env_second (agent_after example_cycle1) = []"
    unfolding example_cycle1_def env_second_def env_first_def by code_simp
  show "generate_calls example_cycle2
      = [[''Previously processed video 1'', ''Previously processed video 2'']]"
    unfolding example_cycle2_def example_cycle1_def env_second_def env_first_def
    by code_simp
  show "self_overall_summary (agent_after example_cycle2)
      \<noteq> self_overall_summary (agent_after example_cycle1)"
    unfolding example_cycle2_def example_cycle1_def env_second_def env_first_def
    by code_simp
  show "disk_after example_cycle2 \<noteq> disk_after example_cycle1"
    unfolding example_cycle2_def example_cycle1_def env_second_def env_first_def
    by code_simp
qed

subsection \<open>The test for a processed file\<close>

text \<open>
  C2. \<open>_is_file_processed\<close> is to hold exactly when the path is a known processed path
  or the content hash of the file equals a recorded hash, and a file that cannot be
  read is to count as not matching, so that an unreadable file with an unknown path is
  reported as unprocessed. The code compares the empty string that \<open>_get_file_hash\<close>
  returns for such a file with the recorded values. After \<open>example_cycle_vanish\<close> the
  recorded hash of \<open>a.json\<close> is the empty string, and the unreadable, unknown
  \<open>locked.json\<close> is reported as processed and is not among the new files.
\<close>

theorem is_file_processed_empty_digest:
  "read_bytes env_locked ''video_summaries/locked.json'' = None \<and>
   ''video_summaries/locked.json'' \<notin> self_processed_files (agent_after example_cycle_vanish) \<and>
   agent_file_hashes (agent_after example_cycle_vanish) = [(''video_summaries/a.json'', [])] \<and>
   is_file_processed env_locked (agent_after example_cycle_vanish)
     ''video_summaries/locked.json'' \<and>
   new_files_of env_locked (agent_after example_cycle_vanish) = []"
  unfolding example_cycle_vanish_def env_vanish_def env_locked_def by code_simp

subsection \<open>Saving the summary\<close>

text \<open>
  C3, as the code has it. \<open>_save_summary\<close> leaves the persisted file alone when there
  is no summary. Otherwise it opens the file for writing and writes the chunks of the
  serialized summary into it, in place, with no temporary file and no rename. What the
  call leaves behind depends on how far the write gets: the file as it was when the open
  raises, the first \<open>k\<close> chunks when the write after them raises, and exactly the complete
  new document when the write goes through; in each case it is one of the states the
  file goes through during the call. Those states are the previous file, then the empty
  text right after the open, then the prefixes of the new document chunk by chunk up to
  the complete document. So whenever neither the previous file nor the new document is
  empty, the file goes through a state that is neither of the two, and a process that
  stops there leaves it behind.
\<close>

theorem save_summary_overwrites_in_place:
  "(self_overall_summary a = None \<longrightarrow>
      save_summary e a disk = disk \<and> save_summary_states e a disk = [disk]) \<and>
   (\<forall>s. self_overall_summary a = Some s \<longrightarrow>
      save_summary e a disk =
        (case disk_write e of
           OpenFails \<Rightarrow> disk
         | WriteFails k \<Rightarrow> Some (concat (take k (json_dump e s)))
         | WriteOk \<Rightarrow> Some (concat (json_dump e s))) \<and>
      save_summary e a disk \<in> set (save_summary_states e a disk) \<and>
      length (save_summary_states e a disk) = length (json_dump e s) + 2 \<and>
      save_summary_states e a disk ! 0 = disk \<and>
      save_summary_states e a disk ! 1 = Some [] \<and>
      (\<forall>i \<le> length (json_dump e s).
         save_summary_states e a disk ! Suc i = Some (concat (take i (json_dump e s)))) \<and>
      hd (save_summary_states e a disk) = disk \<and>
      last (save_summary_states e a disk) = Some (concat (json_dump e s)) \<and>
      (\<forall>d \<in> set (tl (save_summary_states e a disk)).
         \<exists>doc. d = Some doc \<and> prefix doc (concat (json_dump e s))) \<and>
      (disk \<noteq> Some [] \<and> concat (json_dump e s) \<noteq> [] \<longrightarrow>
         (\<exists>d \<in> set (save_summary_states e a disk).
            d \<noteq> disk \<and> d \<noteq> Some (concat (json_dump e s)))))"
proof (intro conjI allI impI)
  assume "self_overall_summary a = None"
  then show "save_summary e a disk = disk" by (simp add: save_summary_def)
next
  assume "self_overall_summary a = None"
  then show "save_summary_states e a disk = [disk]" by (simp add: save_summary_states_def)
next
  fix s assume "self_overall_summary a = Some s"
  then show "save_summary e a disk =
        (case disk_write e of
           OpenFails \<Rightarrow> disk
         | WriteFails k \<Rightarrow> Some (concat (take k (json_dump e s)))
         | WriteOk \<Rightarrow> Some (concat (json_dump e s)))"
    by (rule save_summary_cases)
next
  fix s assume "self_overall_summary a = Some s"
  then show "save_summary e a disk \<in> set (save_summary_states e a disk)"
    by (rule save_summary_in_states)
next
  fix s assume "self_overall_summary a = Some s"
  then show "length (save_summary_states e a disk) = length (json_dump e s) + 2"
    by (rule save_summary_states_Some)
next
  fix s assume "self_overall_summary a = Some s"
  then show "save_summary_states e a disk ! 0 = disk" by (rule save_summary_states_Some)
next
  fix s assume "self_overall_summary a = Some s"
  then show "save_summary_states e a disk ! 1 = Some []" by (rule save_summary_states_Some)
next
  fix s i assume "self_overall_summary a = Some s" "i \<le> length (json_dump e s)"
  then show "save_summary_states e a disk ! Suc i = Some (concat (take i (json_dump e s)))"
    using save_summary_states_Some(7) by blast
next
  fix s assume "self_overall_summary a = Some s"
  then show "hd (save_summary_states e a disk) = disk" by (rule save_summary_states_Some)
next
  fix s assume "self_overall_summary a = Some s"
  then show "last (save_summary_states e a disk) = Some (concat (json_dump e s))"
    by (rule save_summary_states_Some)
next
  fix s assume "self_overall_summary a = Some s"
  then show "\<forall>d \<in> set (tl (save_summary_states e a disk)).
         \<exists>doc. d = Some doc \<and> prefix doc (concat (json_dump e s))"
    by (rule save_summary_states_Some)
next
  fix s assume "self_overall_summary a = Some s"
    and "disk \<noteq> Some [] \<and> concat (json_dump e s) \<noteq> []"
  then show "\<exists>d \<in> set (save_summary_states e a disk).
            d \<noteq> disk \<and> d \<noteq> Some (concat (json_dump e s))"
    using save_summary_not_atomic by blast
qed

theorem save_summary_overwrites_in_place_witness:
  "self_overall_summary (agent_after example_cycle2) = Some example_summary2 \<and>
   disk_write env_second = WriteOk \<and>
   disk_write env_crash = WriteFails 3 \<and>
   disk_after example_cycle1 = Some (concat (json_dump env_first example_summary1)) \<and>
   disk_after example_cycle1 \<noteq> Some [] \<and>
   concat (json_dump env_second example_summary2) \<noteq> [] \<and>
   3 \<le> length (json_dump env_second example_summary2) \<and>
   save_summary env_second (agent_after example_cycle2) (disk_after example_cycle1)
     = Some (concat (json_dump env_second example_summary2)) \<and>
   save_summary env_crash (agent_after example_cycle2) (disk_after example_cycle1)
     = Some (concat (take 3 (json_dump env_crash example_summary2))) \<and>
   save_summary env_crash (agent_after example_cycle2) (disk_after example_cycle1)
     \<in> set (save_summary_states env_crash (agent_after example_cycle2)
              (disk_after example_cycle1)) \<and>
   save_summary_states env_second (agent_after example_cycle2) (disk_after example_cycle1) ! 0
     = disk_after example_cycle1 \<and>
   save_summary_states env_second (agent_after example_cycle2) (disk_after example_cycle1) ! 1
     = Some [] \<and>
   save_summary_states env_second (agent_after example_cycle2) (disk_after example_cycle1) ! Suc 3
     = Some (concat (take 3 (json_dump env_second example_summary2))) \<and>
   last (save_summary_states env_second (agent_after example_cycle2) (disk_after example_cycle1))
     = Some (concat (json_dump env_second example_summary2)) \<and>
   (\<exists>d \<in> set (save_summary_states env_second (agent_after example_cycle2)
                 (disk_after example_cycle1)).
      d \<noteq> disk_after example_cycle1 \<and>
      d \<noteq> Some (concat (json_dump env_second example_summary2)))"
proof -
  have w: "disk_write env_second = WriteOk"
    by (simp add: env_second_def example_env_def)
  have c: "disk_write env_crash = WriteFails 3"
    by (simp add: env_crash_def)
  have d1: "disk_after example_cycle1 = Some (concat (json_dump env_first example_summary1))"
    unfolding example_cycle1_def env_first_def example_summary1_def by code_simp
  have d2: "disk_after example_cycle1 \<noteq> Some []"
    unfolding example_cycle1_def env_first_def by code_simp
  have n: "concat (json_dump env_second example_summary2) \<noteq> []"
    unfolding env_second_def example_summary2_def by code_simp
  have l: "3 \<le> length (json_dump env_second example_summary2)"
    unfolding env_second_def example_summary2_def by code_simp
  note th = save_summary_overwrites_in_place[of "agent_after example_cycle2" env_second
      "disk_after example_cycle1", THEN conjunct2, THEN spec, THEN mp, OF example_cycle2_summary]
  note tc = save_summary_overwrites_in_place[of "agent_after example_cycle2" env_crash
      "disk_after example_cycle1", THEN conjunct2, THEN spec, THEN mp, OF example_cycle2_summary]
  note rest = th[THEN conjunct2, THEN conjunct2, THEN conjunct2]
  note rest2 = rest[THEN conjunct2, THEN conjunct2]
  note rest3 = rest2[THEN conjunct2, THEN conjunct2]
  show ?thesis
    by (intro conjI example_cycle2_summary w c d1 d2 n l
          th[THEN conjunct1, unfolded w write_outcome.case]
          tc[THEN conjunct1, unfolded c write_outcome.case]
          tc[THEN conjunct2, THEN conjunct1]
          rest[THEN conjunct1]
          rest[THEN conjunct2, THEN conjunct1]
          rest2[THEN conjunct1, THEN spec, THEN mp, OF l]
          rest3[THEN conjunct1]
          rest3[THEN conjunct2, THEN conjunct2, THEN mp, OF conjI, OF d2 n])
qed

text \<open>
  C3, as stated, fails: the save is not atomic. In the second cycle of the example the
  persisted file holds the document of the first cycle; right after the open it is
  empty, which is neither that document nor the new one. And when the write after the
  third chunk raises, \<open>_save_summary\<close> catches the exception and returns with the file
  cut off there, which again is neither of the two.
\<close>

theorem save_summary_truncates_first:
  "disk_after example_cycle1 \<noteq> None \<and>
   Some [] \<in> set (save_summary_states env_second (agent_after example_cycle2)
                   (disk_after example_cycle1)) \<and>
   Some [] \<noteq> disk_after example_cycle1 \<and>
   Some [] \<noteq> save_summary env_second (agent_after example_cycle2) (disk_after example_cycle1) \<and>
   save_summary env_crash (agent_after example_cycle2) (disk_after example_cycle1)
     \<noteq> disk_after example_cycle1 \<and>
   save_summary env_crash (agent_after example_cycle2) (disk_after example_cycle1)
     \<noteq> save_summary env_second (agent_after example_cycle2) (disk_after example_cycle1)"
  unfolding example_cycle2_def example_cycle1_def env_crash_def env_second_def env_first_def
  by code_simp

subsection \<open>The order of the processed paths\<close>

text \<open>
  C6, as the code has it. A cycle either leaves the agent as it is, or builds a new
  summary whose \<open>processed_files\<close> is \<open>list(self.processed_files)\<close> followed by the
  paths recorded in this cycle, in the order in which they were processed. The first
  part enumerates the set of processed paths: it has the entries of the old list, each
  once, in the order in which the set is iterated. No entry is dropped and the length
  grows by the number of recorded paths; the old list need not be a prefix of the new
  one. The new summary is a value built from the old one, which is not changed.
\<close>

theorem processed_files_after_cycle:
  "reachable a \<Longrightarrow> env_ok e \<Longrightarrow>
     agent_after (process_new_files e a disk) = a \<or>
     (agent_processed_list (agent_after (process_new_files e a disk))
        = set_iter e (self_processed_files a) @ recorded_files e a \<and>
      set (set_iter e (self_processed_files a)) = set (agent_processed_list a) \<and>
      distinct (set_iter e (self_processed_files a)) \<and>
      length (set_iter e (self_processed_files a)) = length (agent_processed_list a))"
proof -
  assume r: "reachable a" and ok: "env_ok e"
  have inv: "agent_inv a" using r by (rule reachable_inv)
  have fin: "finite (self_processed_files a)" using inv by (rule agent_inv_finite)
  have it: "set (set_iter e (self_processed_files a)) = self_processed_files a"
    "distinct (set_iter e (self_processed_files a))"
    using ok fin by (auto simp: env_ok_def)
  have old: "set (agent_processed_list a) = self_processed_files a"
    "int (length (agent_processed_list a)) = agent_total_files a"
    using inv by (auto simp: agent_inv_def agent_processed_list_def agent_total_files_def
        split: option.splits)
  have len: "int (length (set_iter e (self_processed_files a))) = agent_total_files a"
    using ok inv by (rule set_iter_length)
  show ?thesis
    using it old len
    by (simp add: process_new_files_unfold update_overall_summary_def Let_def
          agent_processed_list_def)
qed

theorem processed_files_after_cycle_witness:
  "reachable (agent_after example_cycle_ba) \<and> env_ok env_bac \<and>
   agent_after example_cycle_bac \<noteq> agent_after example_cycle_ba \<and>
   agent_processed_list (agent_after example_cycle_bac)
     = set_iter env_bac (self_processed_files (agent_after example_cycle_ba)) @
       recorded_files env_bac (agent_after example_cycle_ba) \<and>
   set (set_iter env_bac (self_processed_files (agent_after example_cycle_ba)))
     = set (agent_processed_list (agent_after example_cycle_ba)) \<and>
   distinct (set_iter env_bac (self_processed_files (agent_after example_cycle_ba))) \<and>
   length (set_iter env_bac (self_processed_files (agent_after example_cycle_ba)))
     = length (agent_processed_list (agent_after example_cycle_ba))"
proof -
  have reach: "reachable (agent_after example_cycle_ba)"
    unfolding example_cycle_ba_def
    by (rule reachable.cycle[OF example_agent_reachable])
       (simp add: env_ba_def env_ok_example)
  have ok: "env_ok env_bac"
    by (simp add: env_bac_def env_ok_example)
  have ne: "agent_after example_cycle_bac \<noteq> agent_after example_cycle_ba"
    unfolding example_cycle_bac_def example_cycle_ba_def env_ba_def env_bac_def
    by code_simp
  note th = processed_files_after_cycle[OF reach ok, of "disk_after example_cycle_ba",
      folded example_cycle_bac_def]
  from th ne show ?thesis
    using reach ok by blast
qed

text \<open>
  C6, as stated, fails: the old list is not always a prefix of the new one. The first
  cycle records \<open>b.json\<close> and then \<open>a.json\<close>; the second cycle enumerates the set in
  sorted order, \<open>a.json\<close> first.
\<close>

theorem processed_files_not_prefix:
  "agent_processed_list (agent_after example_cycle_ba)
     = [''video_summaries/b.json'', ''video_summaries/a.json''] \<and>
   agent_processed_list (agent_after example_cycle_bac)
     = [''video_summaries/a.json'', ''video_summaries/b.json'', ''video_summaries/c.json''] \<and>
   \<not> prefix (agent_processed_list (agent_after example_cycle_ba))
             (agent_processed_list (agent_after example_cycle_bac))"
  unfolding example_cycle_bac_def example_cycle_ba_def env_ba_def env_bac_def
  by code_simp

subsection \<open>A failed request for the summary\<close>




subsection \<open>A second cycle over an unchanged directory\<close>

text \<open>
  C10. Let a cycle run from a reachable agent, past the probe of the language model,
  and let a second cycle follow over the same directory: the same listing, the same
  bytes and the same records behind every path. Whatever the language model answers
  and whether or not the second cycle generates a summary again, the second cycle
  leaves the set of processed paths, the entries of \<open>processed_files\<close>, the dict
  \<open>file_hashes\<close>, \<open>total_files\<close> and \<open>total_videos\<close> as the first cycle left them.
  With a disk that takes the writes, the persisted file after the second cycle is the
  file after the first, or both are serializations of summaries with these same fields.
\<close>

theorem second_cycle_keeps_bookkeeping:
  assumes "reachable a" and "env_ok e1" and "env_ok e2" and "is_available e1"
    and "same_directory e1 e2"
    and "r1 = process_new_files e1 a disk"
    and "r2 = process_new_files e2 (agent_after r1) (disk_after r1)"
  shows "bookkeeping (agent_after r2) = bookkeeping (agent_after r1) \<and>
         (disk_write e1 = WriteOk \<and> disk_write e2 = WriteOk \<longrightarrow>
            disk_after r2 = disk_after r1 \<or>
            (\<exists>s1 s2. disk_after r1 = Some (concat (json_dump e1 s1)) \<and>
                     disk_after r2 = Some (concat (json_dump e2 s2)) \<and>
                     summary_bookkeeping s2 = summary_bookkeeping s1))"
proof -
  have inv: "agent_inv a" using assms(1) by (rule reachable_inv)
  show ?thesis
  proof (cases "commits e1 a")
    case False
    then have r1: "agent_after r1 = a" "disk_after r1 = disk"
      unfolding assms(6) by (simp_all add: process_new_files_returns_early)
    have "\<not> commits e2 a"
      using False same_directory_commits[OF assms(5) assms(4)] by blast
    then have "agent_after r2 = a" "disk_after r2 = disk"
      unfolding assms(7) r1 by (simp_all add: process_new_files_returns_early)
    then show ?thesis using r1 by simp
  next
    case True
    let ?a1 = "committed_agent e1 a"
    from True have r1: "agent_after r1 = ?a1" "disk_after r1 = save_summary e1 ?a1 disk"
      unfolding assms(6) by (simp_all add: process_new_files_commits)
    show ?thesis
    proof (cases "commits e2 ?a1")
      case False
      then have "agent_after r2 = ?a1" "disk_after r2 = disk_after r1"
        unfolding assms(7) r1 by (simp_all add: process_new_files_returns_early)
      then show ?thesis using r1 by simp
    next
      case c2: True
      let ?a2 = "committed_agent e2 ?a1"
      from c2 have r2: "agent_after r2 = ?a2"
        "disk_after r2 = save_summary e2 ?a2 (disk_after r1)"
        unfolding assms(7) r1 by (simp_all add: process_new_files_commits)
      have bk: "bookkeeping ?a2 = bookkeeping ?a1"
        using inv assms(2,3,5) by (rule commit_again_bookkeeping)
      obtain s1 where s1: "self_overall_summary ?a1 = Some s1"
        using committed_fields(7)[of e1 a] by blast
      obtain s2 where s2: "self_overall_summary ?a2 = Some s2"
        using committed_fields(7)[of e2 ?a1] by blast
      have sb: "summary_bookkeeping s2 = summary_bookkeeping s1"
        using bk unfolding bookkeeping_Some[OF s1] bookkeeping_Some[OF s2] by simp
      have "disk_write e1 = WriteOk \<and> disk_write e2 = WriteOk \<longrightarrow>
          (\<exists>s1 s2. disk_after r1 = Some (concat (json_dump e1 s1)) \<and>
                   disk_after r2 = Some (concat (json_dump e2 s2)) \<and>
                   summary_bookkeeping s2 = summary_bookkeeping s1)"
        using s1 s2 sb unfolding r1 r2 by (auto simp: save_summary_ok)
      then show ?thesis using bk unfolding r1(1) r2(1) by blast
    qed
  qed
qed

theorem second_cycle_keeps_bookkeeping_witness:
  "reachable example_agent \<and> env_ok env_mixed \<and> env_ok env_second \<and>
   is_available env_mixed \<and> same_directory env_mixed env_second \<and>
   disk_write env_mixed = WriteOk \<and> disk_write env_second = WriteOk \<and>
   generate_calls example_cycle_again \<noteq> [] \<and>
   bookkeeping (agent_after example_cycle_again)
     = bookkeeping (agent_after example_cycle_mixed) \<and>
   (disk_after example_cycle_again = disk_after example_cycle_mixed \<or>
    (\<exists>s1 s2. disk_after example_cycle_mixed = Some (concat (json_dump env_mixed s1)) \<and>
             disk_after example_cycle_again = Some (concat (json_dump env_second s2)) \<and>
             summary_bookkeeping s2 = summary_bookkeeping s1))"
proof -
  have ok1: "env_ok env_mixed" by (simp add: env_mixed_def env_ok_example)
  have ok2: "env_ok env_second" by (simp add: env_second_def env_ok_example)
  have av: "is_available env_mixed" by (simp add: env_mixed_def example_env_def)
  have same: "same_directory env_mixed env_second"
    by (simp add: same_directory_def env_mixed_def env_second_def example_env_def)
  have w1: "disk_write env_mixed = WriteOk" by (simp add: env_mixed_def example_env_def)
  have w2: "disk_write env_second = WriteOk" by (simp add: env_second_def example_env_def)
  have calls: "generate_calls example_cycle_again \<noteq> []"
    unfolding example_cycle_again_def example_cycle_mixed_def env_mixed_def env_second_def
    by code_simp
  note th = second_cycle_keeps_bookkeeping[OF example_agent_reachable ok1 ok2 av same
      example_cycle_mixed_def example_cycle_again_def]
  show ?thesis
    by (intro conjI example_agent_reachable ok1 ok2 av same w1 w2 calls th[THEN conjunct1]
          th[THEN conjunct2, THEN mp, OF conjI[OF w1 w2]])
qed

subsection \<open>The class statement\<close>

text \<open>
  C4. Every operation of \<open>ContinuousVideoAgent\<close> is to be reachable, which needs the
  class to be defined. The result annotation of \<open>load_json_file\<close> is
  \<open>List[VideoSummaryf]\<close>, and \<open>VideoSummaryf\<close> is bound nowhere: running the class
  body stops with \<open>NameError\<close> at the seventh method, so no method of the class can be
  called. With the name spelt \<open>VideoSummary\<close>, as in \<open>extract_ai_summaries\<close>, all twelve
  methods are bound.
\<close>

theorem class_body_name_error:
  "exec_class_body [] class_body = Inl (NameError ''VideoSummaryf'') \<and>
   exec_class_body []
     (map (\<lambda>method.
        (fst method, map (\<lambda>n. if n = ''VideoSummaryf'' then ''VideoSummary'' else n) (snd method)))
        class_body)
     = Inr (map fst class_body)"
  by code_simp

end
